theory Spec2Isabelle
  imports Main
begin

section \<open>The request/notification bridge of the Son1k-GO assistant\<close>

text \<open>
  The webview side (\<^verbatim>\<open>src/services/vscodeApi.ts\<close>, class \<^verbatim>\<open>VscodeApi\<close>) keeps a table of
  pending requests and a map of subscribers; the extension side
  (\<^verbatim>\<open>src/vscode-extension/src/panels/CodeAssistantPanel.ts\<close>, the listener installed by
  \<^verbatim>\<open>_setWebviewMessageListener\<close>) executes one command per arriving message.
  Both are embedded as state transformers. What the source leaves to its environment
  (the clock, the random generator, the dialogs, the file system, the code of the
  subscribers) is a parameter of the model.
\<close>

subsection \<open>Values on the wire\<close>

text \<open>The payloads are untyped (\<^verbatim>\<open>any\<close>) in the source; they are JSON-like values here.\<close>

datatype json =
    JUndefined
  | JNull
  | JBool bool
  | JNum int
  | JStr string
  | JArr "json list"
  | JObj "(string \<times> json) list"

text \<open>
  What arrives at \<^verbatim>\<open>handleMessage\<close>:
  \<^verbatim>\<open>{ command: string; payload: any, requestId?: string, error?: string }\<close>.
  An optional field that is absent is \<open>None\<close>.
\<close>

record envelope =
  command :: string
  payload :: json
  requestId :: "string option"
  error :: "string option"

text \<open>
  The payload the dispatcher reads: an object whose fields \<^verbatim>\<open>path\<close> and
  \<^verbatim>\<open>newContent\<close>, when present, are strings. Every caller in the repository sends
  \<^verbatim>\<open>{}\<close>, \<^verbatim>\<open>{ path }\<close> or \<^verbatim>\<open>{ path, newContent }\<close>.
\<close>

record req_payload =
  path :: "string option"
  newContent :: "string option"

text \<open>What the webview posts to the extension: \<^verbatim>\<open>{ command, payload, requestId }\<close>.\<close>

record request_msg =
  req_command :: string
  req_payload :: req_payload
  req_requestId :: string

subsection \<open>The state of the client bridge\<close>

type_synonym promise = nat
type_synonym callback = nat
type_synonym addr = nat

text \<open>A call of \<^verbatim>\<open>resolve(payload)\<close> or of \<^verbatim>\<open>reject(new Error(error))\<close>.\<close>

datatype outcome = Resolved json | Rejected string

datatype log_entry = Warn string | Error string string

text \<open>
  The closure returned by \<^verbatim>\<open>subscribe\<close> captures three variables: \<^verbatim>\<open>command\<close>,
  \<^verbatim>\<open>commandSubscribers\<close> (a reference to a \<^verbatim>\<open>Set\<close> object) and \<^verbatim>\<open>callback\<close>.
\<close>

record unsubscribe_fn =
  u_command :: string
  u_commandSubscribers :: addr
  u_callback :: callback

text \<open>
  \<^item> \<open>vscodeApi\<close>: whether \<^verbatim>\<open>acquireVsCodeApi\<close> was available to the constructor, which
    is also when the window listener is installed;
  \<^item> \<open>pendingRequests\<close>: the \<^verbatim>\<open>Map\<close> from request id to the continuation pair of a promise;
  \<^item> \<open>subscribers\<close>: the \<^verbatim>\<open>Map\<close> from command name to a \<^verbatim>\<open>Set\<close> object, the objects
    living in \<open>sets\<close> (a store: the closures of \<^verbatim>\<open>subscribe\<close> alias them); the
    content of a \<^verbatim>\<open>Set\<close> is its list of entries in insertion order, where the entry of a
    deleted value stays as the empty entry \<open>None\<close>, so that a walk in progress keeps its
    position (the list \<^verbatim>\<open>SetData\<close> of ECMAScript);
  \<^item> \<open>posted\<close>: the messages given to \<^verbatim>\<open>vscodeApi.postMessage\<close>;
  \<^item> \<open>timers\<close>: the callbacks given to \<^verbatim>\<open>setTimeout\<close>, oldest first, each with its delay
    and the envelope it will hand to \<^verbatim>\<open>handleMessage\<close>;
  \<^item> \<open>settled\<close>, \<open>invoked\<close>, \<open>console\<close>: the calls made so far to continuations, to
    subscriber callbacks and to \<^verbatim>\<open>console.warn\<close>/\<^verbatim>\<open>console.error\<close>.
\<close>

record client =
  vscodeApi :: bool
  pendingRequests :: "string \<rightharpoonup> promise"
  subscribers :: "string \<rightharpoonup> addr"
  sets :: "addr \<Rightarrow> callback option list"
  next_set :: addr
  next_promise :: promise
  posted :: "request_msg list"
  timers :: "(nat \<times> envelope) list"
  settled :: "(promise \<times> outcome) list"
  invoked :: "(callback \<times> json) list"
  console :: "log_entry list"

text \<open>The constructor; \<open>api\<close> says whether \<^verbatim>\<open>typeof acquireVsCodeApi === 'function'\<close>.\<close>

definition new_VscodeApi :: "bool \<Rightarrow> client" where
  "new_VscodeApi api =
     \<lparr>vscodeApi = api, pendingRequests = Map.empty, subscribers = Map.empty,
      sets = (\<lambda>_. []), next_set = 0, next_promise = 0, posted = [], timers = [],
      settled = [], invoked = [], console = []\<rparr>"

subsection \<open>Set objects\<close>

text \<open>
  \<^verbatim>\<open>Set.prototype.add\<close>, \<^verbatim>\<open>Set.prototype.delete\<close> and \<^verbatim>\<open>Set.prototype.size\<close> on the
  entry list of a set, as ECMAScript defines them: \<^verbatim>\<open>add\<close> appends a value that no entry
  holds, \<^verbatim>\<open>delete\<close> replaces the entry that holds the value by the empty entry, and
  \<^verbatim>\<open>size\<close> counts the entries that are not empty.
\<close>

definition set_add :: "callback \<Rightarrow> callback option list \<Rightarrow> callback option list" where
  "set_add cb xs = (if Some cb \<in> set xs then xs else xs @ [Some cb])"

definition set_delete :: "callback \<Rightarrow> callback option list \<Rightarrow> callback option list" where
  "set_delete cb xs = map (\<lambda>e. if e = Some cb then None else e) xs"

definition set_size :: "callback option list \<Rightarrow> nat" where
  "set_size xs = length (filter (\<lambda>e. e \<noteq> None) xs)"

subsection \<open>request\<close>

text \<open>
  \<^verbatim>\<open>Date.now()\<close> is a natural number of milliseconds, printed in decimal by the template
  string; \<^verbatim>\<open>Math.random()\<close> is a floating-point number, taken here as printed.
\<close>

fun show_nat :: "nat \<Rightarrow> string" where
  "show_nat n =
     (if n < 10 then [''0123456789'' ! n]
      else show_nat (n div 10) @ [''0123456789'' ! (n mod 10)])"

declare show_nat.simps [simp del]

definition make_requestId :: "string \<Rightarrow> nat \<Rightarrow> string \<Rightarrow> string" where
  "make_requestId cmd now rnd = cmd @ ''_'' @ show_nat now @ ''_'' @ rnd"

definition mockError :: "string \<Rightarrow> string" where
  "mockError cmd =
     ''VS Code API is not available in a standard browser environment. Command \"'' @ cmd
       @ ''\" was not sent.''"

definition request :: "string \<Rightarrow> req_payload \<Rightarrow> nat \<Rightarrow> string \<Rightarrow> client \<Rightarrow> promise \<times> client" where
  "request cmd pl now rnd s =
     (let rid = make_requestId cmd now rnd;
          pr = next_promise s;
          s1 = s\<lparr>next_promise := Suc pr,
                 pendingRequests := (pendingRequests s)(rid \<mapsto> pr)\<rparr>
      in if vscodeApi s1 then
           (pr, s1\<lparr>posted := posted s1 @
                      [\<lparr>req_command = cmd, req_payload = pl, req_requestId = rid\<rparr>]\<rparr>)
         else
           (pr, s1\<lparr>console := console s1 @
                       [Warn (''VS Code API not available. Rejecting request for command: '' @ cmd)],
                    timers := timers s1 @
                       [(100, \<lparr>command = ''response'', payload = JNull,
                               requestId = Some rid, error = Some (mockError cmd)\<rparr>)]\<rparr>))"

subsection \<open>subscribe and the function it returns\<close>

text \<open>
  In \<open>subscribe\<close>, \<^verbatim>\<open>new Set()\<close> takes the next free address of the store; the two
  branches are the command without and with an entry in the map. \<open>unsubscribe u\<close> is a
  call of the function \<open>u\<close> that \<open>subscribe\<close> returned: it works on the \<^verbatim>\<open>Set\<close> object
  that the closure captured, whatever the map holds for the command by then.
\<close>

definition subscribe :: "string \<Rightarrow> callback \<Rightarrow> client \<Rightarrow> unsubscribe_fn \<times> client" where
  "subscribe cmd cb s =
     (case subscribers s cmd of
        None \<Rightarrow>
          (let commandSubscribers = next_set s
           in (\<lparr>u_command = cmd, u_commandSubscribers = commandSubscribers, u_callback = cb\<rparr>,
               s\<lparr>subscribers := (subscribers s)(cmd \<mapsto> commandSubscribers),
                 sets := (sets s)(commandSubscribers := set_add cb []),
                 next_set := Suc commandSubscribers\<rparr>))
      | Some commandSubscribers \<Rightarrow>
          (\<lparr>u_command = cmd, u_commandSubscribers = commandSubscribers, u_callback = cb\<rparr>,
           s\<lparr>sets := (sets s)(commandSubscribers := set_add cb (sets s commandSubscribers))\<rparr>))"

definition unsubscribe :: "unsubscribe_fn \<Rightarrow> client \<Rightarrow> client" where
  "unsubscribe u s =
     (let a = u_commandSubscribers u;
          s1 = s\<lparr>sets := (sets s)(a := set_delete (u_callback u) (sets s a))\<rparr>
      in if set_size (sets s1 a) = 0
         then s1\<lparr>subscribers := (subscribers s1)(u_command u := None)\<rparr>
         else s1)"

subsection \<open>Subscribers\<close>

text \<open>
  A subscriber is foreign code that runs inside \<^verbatim>\<open>handleMessage\<close>, with the bridge in
  its hands: it may call \<^verbatim>\<open>request\<close> (the subscribers of \<^verbatim>\<open>App.tsx\<close> and of
  \<^verbatim>\<open>RepoCleanupModal.tsx\<close> do, through \<^verbatim>\<open>fetchVsCodeInitialData\<close>), \<^verbatim>\<open>subscribe\<close>, or a
  function that \<^verbatim>\<open>subscribe\<close> returned, any number of times, and it may throw. It cannot
  call \<^verbatim>\<open>handleMessage\<close>, which is private, and a window message or a timer that it
  causes is handled in a later turn of the event loop.

  A subscriber is known here by its identity and by its reaction: the calls it makes on
  the bridge, in order, and the exception it ends with, if any. The reaction may depend
  on the payload and on anything that has happened to the bridge so far, hence on the
  state of the bridge at the moment of the call.
\<close>

datatype call =
    CallRequest string req_payload nat string
  | CallSubscribe string callback
  | CallUnsubscribe unsubscribe_fn

record reaction =
  calls :: "call list"
  throws :: "string option"

type_synonym behaviour = "callback \<Rightarrow> json \<Rightarrow> client \<Rightarrow> reaction"

fun do_call :: "client \<Rightarrow> call \<Rightarrow> client" where
  "do_call s (CallRequest cmd pl now rnd) = snd (request cmd pl now rnd s)"
| "do_call s (CallSubscribe cmd cb) = snd (subscribe cmd cb s)"
| "do_call s (CallUnsubscribe u) = unsubscribe u s"

subsection \<open>handleMessage\<close>

text \<open>
  The body of \<^verbatim>\<open>commandSubscribers.forEach\<close>: the call, with what the callback does to
  the bridge, and the \<^verbatim>\<open>catch\<close> that logs.
\<close>

definition call_subscriber :: "behaviour \<Rightarrow> string \<Rightarrow> json \<Rightarrow> callback \<Rightarrow> client \<Rightarrow> client" where
  "call_subscriber B cmd p cb s =
     (let r = B cb p s;
          s1 = foldl do_call (s\<lparr>invoked := invoked s @ [(cb, p)]\<rparr>) (calls r)
      in case throws r of
           None \<Rightarrow> s1
         | Some e \<Rightarrow>
             s1\<lparr>console := console s1 @
                   [Error (''Error in subscriber for command '' @ [CHR 0x27] @ cmd @ [CHR 0x27] @ '':'') e]\<rparr>)"

text \<open>
  \<^verbatim>\<open>Set.prototype.forEach\<close> walks the entry list of the \<^verbatim>\<open>Set\<close> object by position and
  reads the list again at every step: it skips an entry that was deleted before its
  turn, and it reaches an entry that was added during the walk. A callback that deletes
  and adds itself again is reached again, so the walk need not end: \<open>None\<close> is the walk
  that does not return (lemma \<open>delivery_may_not_return\<close> below has one).
\<close>

partial_function (option) forEach ::
  "behaviour \<Rightarrow> string \<Rightarrow> json \<Rightarrow> addr \<Rightarrow> nat \<Rightarrow> client \<Rightarrow> client option" where
  "forEach B cmd p commandSubscribers index s =
     (if index < length (sets s commandSubscribers)
      then (case sets s commandSubscribers ! index of
              None \<Rightarrow> forEach B cmd p commandSubscribers (Suc index) s
            | Some cb \<Rightarrow>
                forEach B cmd p commandSubscribers (Suc index) (call_subscriber B cmd p cb s))
      else Some s)"

definition settle :: "promise \<Rightarrow> outcome \<Rightarrow> client \<Rightarrow> client" where
  "settle pr out s = s\<lparr>settled := settled s @ [(pr, out)]\<rparr>"

text \<open>
  JavaScript's test \<^verbatim>\<open>if (x)\<close> on an optional string takes the \<^verbatim>\<open>else\<close> branch
  for \<^verbatim>\<open>undefined\<close> and for the empty string alike; \<^verbatim>\<open>if (pending)\<close> and
  \<^verbatim>\<open>if (commandSubscribers)\<close> test objects, which are truthy whenever the lookup finds one.

  The branch \<^verbatim>\<open>if (requestId)\<close>, for a request id \<open>rid\<close> that is not empty:
\<close>

definition handle_response :: "envelope \<Rightarrow> string \<Rightarrow> client \<Rightarrow> client" where
  "handle_response message rid s =
     (case pendingRequests s rid of
        None \<Rightarrow> s
      | Some pending \<Rightarrow>
          (let s1 = (case error message of
                       Some e \<Rightarrow>
                         (if e \<noteq> [] then settle pending (Rejected e) s
                          else settle pending (Resolved (payload message)) s)
                     | None \<Rightarrow> settle pending (Resolved (payload message)) s)
           in s1\<lparr>pendingRequests := (pendingRequests s1)(rid := None)\<rparr>))"

text \<open>The \<^verbatim>\<open>else\<close> branch: a notification from the extension.\<close>

definition handle_notification :: "behaviour \<Rightarrow> envelope \<Rightarrow> client \<Rightarrow> client option" where
  "handle_notification B message s =
     (case subscribers s (command message) of
        None \<Rightarrow> Some s
      | Some commandSubscribers \<Rightarrow>
          forEach B (command message) (payload message) commandSubscribers 0 s)"

text \<open>\<open>handleMessage B message s = None\<close>: the call does not return.\<close>

definition handleMessage :: "behaviour \<Rightarrow> envelope \<Rightarrow> client \<Rightarrow> client option" where
  "handleMessage B message s =
     (case requestId message of
        Some rid \<Rightarrow>
          (if rid \<noteq> [] then Some (handle_response message rid s)
           else handle_notification B message s)
      | None \<Rightarrow> handle_notification B message s)"

subsection \<open>The events of the client\<close>

text \<open>
  What can happen to the bridge, one event-loop turn at a time: a call of \<^verbatim>\<open>request\<close>
  (with the clock and the random number it reads), a window message (the listener exists
  only when the API was acquired), the oldest timer firing (all timers have the same
  delay, so they fire in the order they were set), a call of \<^verbatim>\<open>subscribe\<close>, a call of
  a function that \<^verbatim>\<open>subscribe\<close> returned. These are the calls that the components make
  from their own turns; the calls that a subscriber makes while a notification is
  delivered to it are part of the \<open>Message\<close> event that delivers it. A turn that does
  not return ends the run: \<open>run B evs s = None\<close>.
\<close>

datatype event =
    Request string req_payload nat string
  | Message envelope
  | Timeout
  | Subscribe string callback
  | Unsubscribe unsubscribe_fn

fun step :: "behaviour \<Rightarrow> client \<Rightarrow> event \<Rightarrow> client option" where
  "step B s (Request cmd pl now rnd) = Some (snd (request cmd pl now rnd s))"
| "step B s (Message m) = (if vscodeApi s then handleMessage B m s else Some s)"
| "step B s Timeout =
     (case timers s of
        [] \<Rightarrow> Some s
      | t # ts \<Rightarrow> handleMessage B (snd t) (s\<lparr>timers := ts\<rparr>))"
| "step B s (Subscribe cmd cb) = Some (snd (subscribe cmd cb s))"
| "step B s (Unsubscribe u) = Some (unsubscribe u s)"

fun run :: "behaviour \<Rightarrow> event list \<Rightarrow> client \<Rightarrow> client option" where
  "run B [] s = Some s"
| "run B (e # evs) s = (case step B s e of None \<Rightarrow> None | Some s1 \<Rightarrow> run B evs s1)"

subsection \<open>The host command dispatcher\<close>

text \<open>
  The listener of \<^verbatim>\<open>_setWebviewMessageListener\<close> runs once per arriving message. What
  it asks of VS Code during that run is answered by the environment:
  \<^item> \<open>workspaceFolder\<close>: \<^verbatim>\<open>vscode.workspace.workspaceFolders?.[0]\<close>, with its
    \<^verbatim>\<open>uri.fsPath\<close> and its \<^verbatim>\<open>name\<close>;
  \<^item> \<open>foundFiles\<close>: the result of \<^verbatim>\<open>findFiles\<close>, already as relative paths;
  \<^item> \<open>isoDate\<close>, \<open>timeStamp\<close>: \<^verbatim>\<open>new Date().toISOString()\<close> and
    \<^verbatim>\<open>new Date().getTime()\<close>;
  \<^item> \<open>confirmation\<close>: what \<^verbatim>\<open>showWarningMessage\<close> resolves to (the button chosen,
    \<open>None\<close> when the dialog is dismissed);
  \<^item> \<open>inputBox\<close>: what \<^verbatim>\<open>showInputBox\<close> resolves to (\<open>None\<close> when dismissed);
  \<^item> \<open>fsError\<close>: the message of the exception that the file-system call of this run
    raises for a reason the model does not hold (permissions, a directory in the way),
    \<open>None\<close> when there is no such failure;
  \<^item> \<open>uriError\<close>: the message of the exception \<^verbatim>\<open>Uri.joinPath\<close> raises for a path
    segment that is not a string.
\<close>

record workspace =
  fsPath :: string
  name :: string

record env =
  workspaceFolder :: "workspace option"
  foundFiles :: "string list"
  isoDate :: string
  timeStamp :: nat
  confirmation :: "string option"
  inputBox :: "string option"
  fsError :: "string option"
  uriError :: string

text \<open>
  A file is addressed by the workspace root and the path joined to it; the files of the
  host are a map from such addresses to contents.
\<close>

type_synonym uri = "string \<times> string"
type_synonym files = "uri \<rightharpoonup> string"

definition joinPath :: "env \<Rightarrow> workspace \<Rightarrow> string option \<Rightarrow> string + uri" where
  "joinPath E w seg = (case seg of Some p \<Rightarrow> Inr (fsPath w, p) | None \<Rightarrow> Inl (uriError E))"

text \<open>
  \<^verbatim>\<open>vscode.workspace.fs\<close>: reading or deleting a file that does not exist raises
  \<^verbatim>\<open>FileNotFound\<close>; writing creates the file or replaces its content.
\<close>

definition fileNotFound :: string where
  "fileNotFound = ''FileNotFound''"

definition fs_readFile :: "env \<Rightarrow> files \<Rightarrow> uri \<Rightarrow> string + string" where
  "fs_readFile E fs u =
     (case fsError E of
        Some m \<Rightarrow> Inl m
      | None \<Rightarrow> (case fs u of None \<Rightarrow> Inl fileNotFound | Some c \<Rightarrow> Inr c))"

definition fs_writeFile :: "env \<Rightarrow> files \<Rightarrow> uri \<Rightarrow> string \<Rightarrow> string + files" where
  "fs_writeFile E fs u c =
     (case fsError E of
        Some m \<Rightarrow> Inl m
      | None \<Rightarrow> Inr (fs(u \<mapsto> c)))"

definition fs_delete :: "env \<Rightarrow> files \<Rightarrow> uri \<Rightarrow> string + files" where
  "fs_delete E fs u =
     (case fsError E of
        Some m \<Rightarrow> Inl m
      | None \<Rightarrow> (case fs u of None \<Rightarrow> Inl fileNotFound | Some c \<Rightarrow> Inr (fs(u := None))))"

text \<open>
  \<^verbatim>\<open>respond(data, error?)\<close> posts a response envelope; the notification of the two
  mutating commands is \<^verbatim>\<open>{ command: 'refreshFileTree' }\<close>, the message the specification
  calls \<^verbatim>\<open>treeChanged\<close>.
\<close>

definition respond :: "string \<Rightarrow> json \<Rightarrow> string option \<Rightarrow> envelope" where
  "respond rid data err = \<lparr>command = ''response'', payload = data, requestId = Some rid, error = err\<rparr>"

definition refreshFileTree :: envelope where
  "refreshFileTree = \<lparr>command = ''refreshFileTree'', payload = JUndefined, requestId = None, error = None\<rparr>"

text \<open>A template string prints an absent \<^verbatim>\<open>payload.path\<close> as \<^verbatim>\<open>undefined\<close>.\<close>

definition template :: "string option \<Rightarrow> string" where
  "template x = (case x of Some s \<Rightarrow> s | None \<Rightarrow> ''undefined'')"

definition getInitialData :: "env \<Rightarrow> workspace \<Rightarrow> json" where
  "getInitialData E w =
     JObj [
       (''user'', JObj [(''id'', JStr ''vscode-user''), (''name'', JStr ''VS Code User''),
                        (''avatarUrl'', JStr [])]),
       (''repo'', JObj [(''id'', JStr (''vscode-repo-'' @ fsPath w)), (''name'', JStr (name w)),
                        (''owner'', JObj [(''login'', JStr ''local'')]),
                        (''description'', JStr ''A local project open in VS Code.''),
                        (''private'', JBool True), (''updatedAt'', JStr (isoDate E)),
                        (''language'', JStr ''Local''), (''defaultBranch'', JStr ''main''),
                        (''fileTree'', JArr [])]),
       (''fileTree'',
          JArr (map (\<lambda>file. JObj [(''path'', JStr file), (''type'', JStr ''blob''), (''sha'', JStr [])])
                    (foundFiles E)))]"

definition getFileContent :: "env \<Rightarrow> workspace \<Rightarrow> request_msg \<Rightarrow> files \<Rightarrow> envelope list \<times> files" where
  "getFileContent E w msg fs =
     (let rid = req_requestId msg; p = path (req_payload msg);
          failed = (\<lambda>e. ([respond rid JNull (Some (''Failed to read file '' @ template p @ '': '' @ e))], fs))
      in case joinPath E w p of
           Inl e \<Rightarrow> failed e
         | Inr fileUri \<Rightarrow>
             (case fs_readFile E fs fileUri of
                Inl e \<Rightarrow> failed e
              | Inr content \<Rightarrow>
                  ([respond rid (JObj [(''content'', JStr content),
                                       (''sha'', JStr (show_nat (timeStamp E)))]) None], fs)))"

text \<open>\<^verbatim>\<open>new TextEncoder().encode(undefined)\<close> is the empty byte sequence.\<close>

definition updateFileContent :: "env \<Rightarrow> workspace \<Rightarrow> request_msg \<Rightarrow> files \<Rightarrow> envelope list \<times> files" where
  "updateFileContent E w msg fs =
     (let rid = req_requestId msg; p = path (req_payload msg);
          failed = (\<lambda>e. ([respond rid JNull (Some (''Failed to write file '' @ template p @ '': '' @ e))], fs))
      in case joinPath E w p of
           Inl e \<Rightarrow> failed e
         | Inr fileUri \<Rightarrow>
             (let contentBytes = (case newContent (req_payload msg) of Some c \<Rightarrow> c | None \<Rightarrow> [])
              in case fs_writeFile E fs fileUri contentBytes of
                   Inl e \<Rightarrow> failed e
                 | Inr fs' \<Rightarrow>
                     ([respond rid (JObj [(''newSha'', JStr (show_nat (timeStamp E)))]) None], fs')))"

definition deleteFile :: "env \<Rightarrow> workspace \<Rightarrow> request_msg \<Rightarrow> files \<Rightarrow> envelope list \<times> files" where
  "deleteFile E w msg fs =
     (let rid = req_requestId msg; p = path (req_payload msg);
          failed = (\<lambda>e. ([respond rid JNull (Some (''Failed to delete file '' @ template p @ '': '' @ e))], fs))
      in case joinPath E w p of
           Inl e \<Rightarrow> failed e
         | Inr fileUri \<Rightarrow>
             (if confirmation E = Some ''Delete'' then
                (case fs_delete E fs fileUri of
                   Inl e \<Rightarrow> failed e
                 | Inr fs' \<Rightarrow>
                     ([refreshFileTree, respond rid (JObj [(''success'', JBool True)]) None], fs'))
              else ([respond rid JNull (Some ''Deletion cancelled by user.'')], fs)))"

definition createFile :: "env \<Rightarrow> workspace \<Rightarrow> request_msg \<Rightarrow> files \<Rightarrow> envelope list \<times> files" where
  "createFile E w msg fs =
     (let rid = req_requestId msg;
          cancelled = ([respond rid JNull (Some ''File creation cancelled by user.'')], fs);
          failed = (\<lambda>e. ([respond rid JNull (Some (''Failed to create file: '' @ e))], fs))
      in case inputBox E of
           None \<Rightarrow> cancelled
         | Some newFilePath \<Rightarrow>
             (if newFilePath \<noteq> [] then
                (case joinPath E w (Some newFilePath) of
                   Inl e \<Rightarrow> failed e
                 | Inr fileUri \<Rightarrow>
                     (case fs_writeFile E fs fileUri [] of
                        Inl e \<Rightarrow> failed e
                      | Inr fs' \<Rightarrow>
                          ([refreshFileTree,
                            respond rid (JObj [(''success'', JBool True), (''path'', JStr newFilePath)]) None],
                           fs')))
              else cancelled))"

text \<open>
  The listener: the guard on the workspace comes before the \<^verbatim>\<open>switch\<close>, and the
  \<^verbatim>\<open>switch\<close> has no \<^verbatim>\<open>default\<close>. The result is the list of envelopes given to
  \<^verbatim>\<open>webview.postMessage\<close>, in order, and the files afterwards.
\<close>

definition onDidReceiveMessage :: "env \<Rightarrow> request_msg \<Rightarrow> files \<Rightarrow> envelope list \<times> files" where
  "onDidReceiveMessage E msg fs =
     (let cmd = req_command msg; rid = req_requestId msg
      in case workspaceFolder E of
           None \<Rightarrow>
             (if cmd \<noteq> ''getInitialData''
              then ([respond rid JNull (Some ''No workspace is open.'')], fs)
              else ([respond rid JNull
                       (Some ''No workspace folder is open. Please open a project to use the assistant.'')],
                    fs))
         | Some w \<Rightarrow>
             (if cmd = ''getInitialData'' then ([respond rid (getInitialData E w) None], fs)
              else if cmd = ''getFileContent'' then getFileContent E w msg fs
              else if cmd = ''updateFileContent'' then updateFileContent E w msg fs
              else if cmd = ''deleteFile'' then deleteFile E w msg fs
              else if cmd = ''createFile'' then createFile E w msg fs
              else ([], fs)))"

section \<open>Notions used in the statements and in the proofs\<close>

text \<open>The values of a \<^verbatim>\<open>Set\<close>, in insertion order: the entries that are not empty.\<close>

fun set_values :: "callback option list \<Rightarrow> callback list" where
  "set_values [] = []"
| "set_values (None # xs) = set_values xs"
| "set_values (Some cb # xs) = cb # set_values xs"

text \<open>The callbacks subscribed to \<open>cmd\<close>, in the order of subscription.\<close>

definition registered :: "client \<Rightarrow> string \<Rightarrow> callback list" where
  "registered s cmd = (case subscribers s cmd of None \<Rightarrow> [] | Some a \<Rightarrow> set_values (sets s a))"

text \<open>How a response envelope settles the continuation it finds.\<close>

definition outcome_of :: "envelope \<Rightarrow> outcome" where
  "outcome_of m =
     (case error m of
        Some e \<Rightarrow> if e \<noteq> [] then Rejected e else Resolved (payload m)
      | None \<Rightarrow> Resolved (payload m))"

text \<open>
  The invariant of the pending table: its keys are not empty, its promises were handed
  out by \<open>request\<close>, two keys never share a promise, no promise in the table has been
  settled, and no promise has been settled twice.
\<close>

definition wf_pending :: "client \<Rightarrow> bool" where
  "wf_pending s \<longleftrightarrow>
     (\<forall>rid pr. pendingRequests s rid = Some pr \<longrightarrow>
        rid \<noteq> [] \<and> pr < next_promise s \<and> pr \<notin> fst ` set (settled s))
   \<and> inj_on (pendingRequests s) (dom (pendingRequests s))
   \<and> distinct (map fst (settled s))
   \<and> (\<forall>pr \<in> fst ` set (settled s). pr < next_promise s)"

text \<open>
  A property of the bridge that no call a subscriber can make destroys, nor the
  bookkeeping of a delivery: it holds after a notification if it held before.
\<close>

definition stable :: "(client \<Rightarrow> bool) \<Rightarrow> bool" where
  "stable P \<longleftrightarrow>
     (\<forall>s cmd pl now rnd. P s \<longrightarrow> P (snd (request cmd pl now rnd s)))
   \<and> (\<forall>s cmd cb. P s \<longrightarrow> P (snd (subscribe cmd cb s)))
   \<and> (\<forall>s u. P s \<longrightarrow> P (unsubscribe u s))
   \<and> (\<forall>s x. P s \<longrightarrow> P (s\<lparr>invoked := x\<rparr>))
   \<and> (\<forall>s x. P s \<longrightarrow> P (s\<lparr>console := x\<rparr>))"

text \<open>A stable property that firing a timer and settling a response keep as well.\<close>

definition invariant :: "(client \<Rightarrow> bool) \<Rightarrow> bool" where
  "invariant P \<longleftrightarrow>
     stable P
   \<and> (\<forall>s x ts. P s \<longrightarrow> timers s = x # ts \<longrightarrow> P (s\<lparr>timers := ts\<rparr>))
   \<and> (\<forall>s m rid. P s \<longrightarrow> P (handle_response m rid s))"

text \<open>
  The invariant of the subscriber map: every set it names was allocated, two commands
  never share a set, and a set holds no callback twice.
\<close>

definition wf_subscribers :: "client \<Rightarrow> bool" where
  "wf_subscribers s \<longleftrightarrow>
     (\<forall>c a. subscribers s c = Some a \<longrightarrow> a < next_set s)
   \<and> inj_on (subscribers s) (dom (subscribers s))
   \<and> (\<forall>a. distinct (set_values (sets s a)))"

text \<open>
  A set object that no command of the map names any more and that is empty: what the
  set captured by an unsubscribe function becomes once its last callback is removed.
\<close>

definition orphaned :: "addr \<Rightarrow> client \<Rightarrow> bool" where
  "orphaned a t \<longleftrightarrow>
     set_size (sets t a) = 0 \<and> a < next_set t \<and> (\<forall>c. subscribers t c \<noteq> Some a)"

text \<open>A set object that was allocated and that no command but \<open>cmd\<close> names.\<close>

definition owned :: "addr \<Rightarrow> string \<Rightarrow> client \<Rightarrow> bool" where
  "owned a cmd t \<longleftrightarrow> a < next_set t \<and> (\<forall>c. subscribers t c = Some a \<longrightarrow> c = cmd)"

text \<open>\<^verbatim>\<open>Set.prototype.add\<close> on the values of a set.\<close>

definition added :: "callback \<Rightarrow> callback list \<Rightarrow> callback list" where
  "added cb xs = (if cb \<in> set xs then xs else xs @ [cb])"

text \<open>The command names the \<^verbatim>\<open>switch\<close> of the dispatcher has a \<^verbatim>\<open>case\<close> for.\<close>

definition catalog :: "string list" where
  "catalog = [''getInitialData'', ''getFileContent'', ''updateFileContent'', ''deleteFile'', ''createFile'']"

text \<open>The tree-changed notifications among the envelopes the dispatcher posted.\<close>

definition treeChanged :: "envelope list \<Rightarrow> envelope list" where
  "treeChanged out = filter (\<lambda>m. requestId m = None \<and> command m = ''refreshFileTree'') out"

text \<open>A workspace, a file in it and a request, for the statements at concrete inputs.\<close>

definition demo_env :: env where
  "demo_env =
     \<lparr>workspaceFolder = Some \<lparr>fsPath = ''/ws'', name = ''ws''\<rparr>, foundFiles = [''a.ts''],
      isoDate = ''2025-01-01T00:00:00.000Z'', timeStamp = 1735689600000,
      confirmation = None, inputBox = None, fsError = None, uriError = ''TypeError''\<rparr>"

definition demo_files :: files where
  "demo_files = [(''/ws'', ''a.ts'') \<mapsto> ''let a = 1'']"

definition demo_request :: "string \<Rightarrow> request_msg" where
  "demo_request cmd =
     \<lparr>req_command = cmd, req_payload = \<lparr>path = Some ''a.ts'', newContent = None\<rparr>,
      req_requestId = make_requestId cmd 17 ''0.5''\<rparr>"

text \<open>The request ids that the calls of \<^verbatim>\<open>request\<close> in a list of events generate.\<close>

fun request_ids :: "event list \<Rightarrow> string list" where
  "request_ids [] = []"
| "request_ids (Request cmd pl now rnd # evs) = make_requestId cmd now rnd # request_ids evs"
| "request_ids (e # evs) = request_ids evs"


text \<open>
  The request ids of the messages posted to the host so far, in the order of the calls
  of \<^verbatim>\<open>request\<close> that generated them, whoever made the call.
\<close>

definition posted_ids :: "client \<Rightarrow> string list" where
  "posted_ids s = map req_requestId (posted s)"






text \<open>The envelope that the timer of \<^verbatim>\<open>request\<close> hands to \<^verbatim>\<open>handleMessage\<close>.\<close>

definition mock_response :: "string \<Rightarrow> string \<Rightarrow> envelope" where
  "mock_response rid cmd =
     \<lparr>command = ''response'', payload = JNull, requestId = Some rid, error = Some (mockError cmd)\<rparr>"

text \<open>
  An envelope that \<^verbatim>\<open>handleMessage\<close> takes for a response: its request id is present
  and not empty. Every envelope that a timer of \<^verbatim>\<open>request\<close> holds is one.
\<close>

definition carries_id :: "envelope \<Rightarrow> bool" where
  "carries_id m = (case requestId m of None \<Rightarrow> False | Some rid \<Rightarrow> rid \<noteq> [])"

text \<open>A bridge without the API, whose timers are timers of \<^verbatim>\<open>request\<close>.\<close>

definition offline :: "client \<Rightarrow> bool" where
  "offline t \<longleftrightarrow> \<not> vscodeApi t \<and> (\<forall>x \<in> set (timers t). carries_id (snd x))"







fun is_error :: "log_entry \<Rightarrow> bool" where
  "is_error (Error m e) = True"
| "is_error (Warn m) = False"

text \<open>
  A delivery that does not return: callback 7 is subscribed to \<^verbatim>\<open>refreshFileTree\<close>, and
  every callback, when called, subscribes its successor to the same command. The walk
  reaches each new entry, which adds the next.
\<close>

definition chain :: behaviour where
  "chain cb p t = \<lparr>calls = [CallSubscribe ''refreshFileTree'' (Suc cb)], throws = None\<rparr>"

definition chained :: "nat \<Rightarrow> client \<Rightarrow> bool" where
  "chained i s \<longleftrightarrow>
     subscribers s ''refreshFileTree'' = Some 0
   \<and> (\<exists>n. i < n \<and> sets s 0 = map Some [7..<7 + n])"

section \<open>Lemmas\<close>

subsection \<open>Properties that a delivery keeps, and the invariant of the pending table\<close>

lemma stableI:
  assumes "\<And>s cmd pl now rnd. P s \<Longrightarrow> P (snd (request cmd pl now rnd s))"
      and "\<And>s cmd cb. P s \<Longrightarrow> P (snd (subscribe cmd cb s))"
      and "\<And>s u. P s \<Longrightarrow> P (unsubscribe u s)"
      and "\<And>s x. P s \<Longrightarrow> P (s\<lparr>invoked := x\<rparr>)"
      and "\<And>s x. P s \<Longrightarrow> P (s\<lparr>console := x\<rparr>)"
  shows "stable P"
  using assms unfolding stable_def by blast

lemma stable_do_call: "stable P \<Longrightarrow> P s \<Longrightarrow> P (do_call s c)"
  by (cases c) (simp_all add: stable_def)

lemma stable_calls: "stable P \<Longrightarrow> P s \<Longrightarrow> P (foldl do_call s cs)"
  by (induction cs arbitrary: s) (simp_all add: stable_do_call)

lemma stable_call_subscriber:
  assumes "stable P" and "P s"
  shows "P (call_subscriber B cmd p cb s)"
proof -
  have 1: "P (s\<lparr>invoked := invoked s @ [(cb, p)]\<rparr>)"
    using assms by (simp add: stable_def)
  have 2: "P (foldl do_call (s\<lparr>invoked := invoked s @ [(cb, p)]\<rparr>) (calls (B cb p s)))"
    using assms(1) 1 by (rule stable_calls)
  have 3: "P (t\<lparr>console := x\<rparr>)" if "P t" for t x
    using assms(1) that by (simp add: stable_def)
  show ?thesis
    unfolding call_subscriber_def Let_def using 2 3 by (simp split: option.splits)
qed

lemma stable_forEach:
  assumes "stable P" and "forEach B cmd p a i s = Some s'" and "P s"
  shows "P s'"
proof -
  have "P s \<longrightarrow> P s'"
  proof (rule forEach.raw_induct
           [where P = "\<lambda>B cmd p a i s s'. P s \<longrightarrow> P s'", OF _ assms(2)])
    fix forEach B cmd p a i s s'
    assume 1: "\<And>B cmd p a i s s'. forEach B cmd p a i s = Some s' \<Longrightarrow> P s \<longrightarrow> P s'"
       "(if i < length (sets s a)
         then case sets s a ! i of
                None \<Rightarrow> forEach B cmd p a (Suc i) s
              | Some cb \<Rightarrow> forEach B cmd p a (Suc i) (call_subscriber B cmd p cb s)
         else Some s) = Some s'"
    show "P s \<longrightarrow> P s'"
    proof
      assume Ps: "P s"
      show "P s'"
      proof (cases "i < length (sets s a)")
        case False
        then show ?thesis using 1(2) Ps by simp
      next
        case True
        show ?thesis
        proof (cases "sets s a ! i")
          case None
          then have "forEach B cmd p a (Suc i) s = Some s'" using 1(2) True by simp
          then show ?thesis using 1(1) Ps by blast
        next
          case (Some cb)
          then have "forEach B cmd p a (Suc i) (call_subscriber B cmd p cb s) = Some s'"
            using 1(2) True by simp
          moreover have "P (call_subscriber B cmd p cb s)"
            using assms(1) Ps by (rule stable_call_subscriber)
          ultimately show ?thesis using 1(1) by blast
        qed
      qed
    qed
  qed
  then show ?thesis using assms(3) by simp
qed

lemma stable_notification:
  assumes "stable P" and "handle_notification B m s = Some s'" and "P s"
  shows "P s'"
  using assms
  by (auto simp: handle_notification_def split: option.splits intro: stable_forEach)

lemma invariant_handleMessage:
  assumes "invariant P" and "handleMessage B m s = Some s'" and "P s"
  shows "P s'"
proof -
  have st: "stable P" and r: "\<And>rid. P (handle_response m rid s)"
    using assms(1,3) by (simp_all add: invariant_def)
  show ?thesis
    using assms(2,3) r stable_notification[OF st, of B m s s']
    by (auto simp: handleMessage_def split: option.splits if_splits)
qed

lemma invariant_step:
  assumes "invariant P" and "step B s e = Some s'" and "P s"
  shows "P s'"
proof (cases e)
  case (Request cmd pl now rnd)
  then show ?thesis using assms by (auto simp: invariant_def stable_def)
next
  case (Message m)
  then show ?thesis using assms invariant_handleMessage[OF assms(1), of B m s s']
    by (auto split: if_splits)
next
  case Timeout
  have "P (s\<lparr>timers := ts\<rparr>)" if "timers s = x # ts" for x ts
    using assms(1,3) that by (auto simp: invariant_def)
  then show ?thesis using Timeout assms(2,3) invariant_handleMessage[OF assms(1)]
    by (auto split: list.splits)
next
  case (Subscribe cmd cb)
  then show ?thesis using assms by (auto simp: invariant_def stable_def)
next
  case (Unsubscribe u)
  then show ?thesis using assms by (auto simp: invariant_def stable_def)
qed

lemma invariant_run:
  assumes "invariant P" and "run B evs s = Some s'" and "P s"
  shows "P s'"
  using assms(2,3)
proof (induction evs arbitrary: s)
  case Nil
  then show ?case by simp
next
  case (Cons e evs)
  then obtain s1 where s1: "step B s e = Some s1" and r: "run B evs s1 = Some s'"
    by (auto split: option.splits)
  have "P s1" using assms(1) s1 Cons.prems(2) by (rule invariant_step)
  then show ?case using Cons.IH r by blast
qed

lemma run_append:
  "run B (xs @ ys) s = (case run B xs s of None \<Rightarrow> None | Some t \<Rightarrow> run B ys t)"
  by (induction xs arbitrary: s) (simp_all split: option.splits)

lemma run_append_Some:
  "run B (xs @ ys) s = Some t \<longleftrightarrow> (\<exists>t1. run B xs s = Some t1 \<and> run B ys t1 = Some t)"
  by (simp add: run_append split: option.splits)

lemma invariantI:
  assumes "stable P"
      and "\<And>s x ts. P s \<Longrightarrow> timers s = x # ts \<Longrightarrow> P (s\<lparr>timers := ts\<rparr>)"
      and "\<And>s m rid. P s \<Longrightarrow> P (handle_response m rid s)"
  shows "invariant P"
  using assms unfolding invariant_def by blast

lemma handle_response_eq:
  "pendingRequests s rid = Some pr \<Longrightarrow>
   handle_response m rid s =
     s\<lparr>settled := settled s @ [(pr, outcome_of m)],
       pendingRequests := (pendingRequests s)(rid := None)\<rparr>"
  by (simp add: handle_response_def settle_def outcome_of_def split: option.splits)

lemma handle_response_None:
  "pendingRequests s rid = None \<Longrightarrow> handle_response m rid s = s"
  by (simp add: handle_response_def)

lemma make_requestId_nonempty: "make_requestId cmd now rnd \<noteq> []"
  by (simp add: make_requestId_def)

lemma request_eq:
  "request cmd pl now rnd s =
     (next_promise s,
      (if vscodeApi s
       then s\<lparr>next_promise := Suc (next_promise s),
              pendingRequests := (pendingRequests s)(make_requestId cmd now rnd \<mapsto> next_promise s),
              posted := posted s @ [\<lparr>req_command = cmd, req_payload = pl,
                                     req_requestId = make_requestId cmd now rnd\<rparr>]\<rparr>
       else s\<lparr>next_promise := Suc (next_promise s),
              pendingRequests := (pendingRequests s)(make_requestId cmd now rnd \<mapsto> next_promise s),
              console := console s @
                 [Warn (''VS Code API not available. Rejecting request for command: '' @ cmd)],
              timers := timers s @
                 [(100, \<lparr>command = ''response'', payload = JNull,
                         requestId = Some (make_requestId cmd now rnd),
                         error = Some (mockError cmd)\<rparr>)]\<rparr>))"
  by (simp add: request_def Let_def)

lemma request_fields [simp]:
  "next_promise (snd (request cmd pl now rnd s)) = Suc (next_promise s)"
  "pendingRequests (snd (request cmd pl now rnd s)) =
     (pendingRequests s)(make_requestId cmd now rnd \<mapsto> next_promise s)"
  "settled (snd (request cmd pl now rnd s)) = settled s"
  "vscodeApi (snd (request cmd pl now rnd s)) = vscodeApi s"
  "subscribers (snd (request cmd pl now rnd s)) = subscribers s"
  "sets (snd (request cmd pl now rnd s)) = sets s"
  "next_set (snd (request cmd pl now rnd s)) = next_set s"
  "invoked (snd (request cmd pl now rnd s)) = invoked s"
  by (simp_all add: request_eq)

lemma subscribe_fields [simp]:
  "next_promise (snd (subscribe cmd cb s)) = next_promise s"
  "pendingRequests (snd (subscribe cmd cb s)) = pendingRequests s"
  "settled (snd (subscribe cmd cb s)) = settled s"
  "vscodeApi (snd (subscribe cmd cb s)) = vscodeApi s"
  "timers (snd (subscribe cmd cb s)) = timers s"
  "posted (snd (subscribe cmd cb s)) = posted s"
  "invoked (snd (subscribe cmd cb s)) = invoked s"
  "console (snd (subscribe cmd cb s)) = console s"
  by (simp_all add: subscribe_def Let_def split: option.splits)

lemma unsubscribe_fields [simp]:
  "next_promise (unsubscribe u s) = next_promise s"
  "pendingRequests (unsubscribe u s) = pendingRequests s"
  "settled (unsubscribe u s) = settled s"
  "vscodeApi (unsubscribe u s) = vscodeApi s"
  "timers (unsubscribe u s) = timers s"
  "posted (unsubscribe u s) = posted s"
  "invoked (unsubscribe u s) = invoked s"
  "console (unsubscribe u s) = console s"
  "next_set (unsubscribe u s) = next_set s"
  by (simp_all add: unsubscribe_def Let_def)

lemma handle_response_fields [simp]:
  "next_promise (handle_response m rid s) = next_promise s"
  "vscodeApi (handle_response m rid s) = vscodeApi s"
  "timers (handle_response m rid s) = timers s"
  "posted (handle_response m rid s) = posted s"
  "invoked (handle_response m rid s) = invoked s"
  "console (handle_response m rid s) = console s"
  "subscribers (handle_response m rid s) = subscribers s"
  "sets (handle_response m rid s) = sets s"
  "next_set (handle_response m rid s) = next_set s"
  by (cases "pendingRequests s rid"; simp add: handle_response_None handle_response_eq)+

lemma wf_pending_new: "wf_pending (new_VscodeApi api)"
  by (simp add: wf_pending_def new_VscodeApi_def)

lemma wf_pending_response:
  assumes "wf_pending s"
  shows "wf_pending (handle_response m rid s)"
proof (cases "pendingRequests s rid")
  case None
  then show ?thesis using assms by (simp add: handle_response_def)
next
  case (Some pr)
  have inj: "inj_on (pendingRequests s) (dom (pendingRequests s))"
    using assms by (simp add: wf_pending_def)
  have other: "pendingRequests s r \<noteq> Some pr" if "r \<noteq> rid" for r
    using inj Some that by (auto simp: inj_on_def dom_def)
  have eq: "handle_response m rid s =
      s\<lparr>settled := settled s @ [(pr, outcome_of m)],
        pendingRequests := (pendingRequests s)(rid := None)\<rparr>"
    using Some by (rule handle_response_eq)
  have inj': "inj_on ((pendingRequests s)(rid := None)) (dom ((pendingRequests s)(rid := None)))"
    using inj by (auto simp: inj_on_def dom_def)
  show ?thesis
    unfolding eq wf_pending_def using assms Some other inj'
    by (auto simp: wf_pending_def)
qed

lemma wf_pending_request:
  assumes "wf_pending s"
  shows "wf_pending (snd (request cmd pl now rnd s))"
proof -
  let ?rid = "make_requestId cmd now rnd"
  have fresh: "pendingRequests s r \<noteq> Some (next_promise s)" for r
    using assms by (auto simp: wf_pending_def)
  have inj: "inj_on (pendingRequests s) (dom (pendingRequests s))"
    using assms by (simp add: wf_pending_def)
  have inj': "inj_on ((pendingRequests s)(?rid \<mapsto> next_promise s))
                     (dom ((pendingRequests s)(?rid \<mapsto> next_promise s)))"
    using inj fresh by (auto simp: inj_on_def dom_def)
  show ?thesis
    using assms inj' make_requestId_nonempty[of cmd now rnd]
    by (auto simp: wf_pending_def less_Suc_eq)
qed

lemma wf_pending_subscribe: "wf_pending (snd (subscribe cmd cb s)) = wf_pending s"
  by (simp add: wf_pending_def)

lemma wf_pending_unsubscribe: "wf_pending (unsubscribe u s) = wf_pending s"
  by (simp add: wf_pending_def)

lemma wf_pending_timers [simp]: "wf_pending (t\<lparr>timers := ts\<rparr>) = wf_pending t"
  by (simp add: wf_pending_def)

lemma invariant_wf_pending: "invariant wf_pending"
proof (intro invariantI stableI)
  show "\<And>s x. wf_pending s \<Longrightarrow> wf_pending (s\<lparr>invoked := x\<rparr>)" by (simp add: wf_pending_def)
  show "\<And>s x. wf_pending s \<Longrightarrow> wf_pending (s\<lparr>console := x\<rparr>)" by (simp add: wf_pending_def)
qed (simp_all add: wf_pending_request wf_pending_subscribe wf_pending_unsubscribe wf_pending_response)


lemmas wf_pending_run = invariant_run [OF invariant_wf_pending]


subsection \<open>Subscriptions and the sets behind them\<close>

lemma set_values_append [simp]: "set_values (xs @ ys) = set_values xs @ set_values ys"
  by (induction xs rule: set_values.induct) simp_all

lemma set_set_values [simp]: "set (set_values xs) = {cb. Some cb \<in> set xs}"
  by (induction xs rule: set_values.induct) auto

lemma set_size_values: "set_size xs = length (set_values xs)"
  by (induction xs rule: set_values.induct) (simp_all add: set_size_def)

lemma set_values_add:
  "set_values (set_add cb xs) =
     (if cb \<in> set (set_values xs) then set_values xs else set_values xs @ [cb])"
  by (simp add: set_add_def)

lemma set_values_delete: "set_values (set_delete cb xs) = removeAll cb (set_values xs)"
  by (induction xs rule: set_values.induct) (auto simp: set_delete_def)

lemma set_size_0: "set_size xs = 0 \<longleftrightarrow> set_values xs = []"
  by (simp add: set_size_values)

lemma set_size_delete_0: "set_size xs = 0 \<Longrightarrow> set_size (set_delete cb xs) = 0"
  by (simp add: set_size_0 set_values_delete)

lemma length_set_delete [simp]: "length (set_delete cb xs) = length xs"
  by (simp add: set_delete_def)

lemma wf_subscribers_new: "wf_subscribers (new_VscodeApi api)"
  by (simp add: wf_subscribers_def new_VscodeApi_def)

lemma distinct_set_add: "distinct (set_values xs) \<Longrightarrow> distinct (set_values (set_add cb xs))"
  by (simp add: set_values_add)

lemma distinct_set_delete: "distinct (set_values xs) \<Longrightarrow> distinct (set_values (set_delete cb xs))"
  by (simp add: set_values_delete distinct_removeAll)

lemma wf_subscribers_subscribe:
  assumes "wf_subscribers s"
  shows "wf_subscribers (snd (subscribe cmd cb s))"
proof (cases "subscribers s cmd")
  case None
  have lt: "subscribers s c = Some a \<Longrightarrow> a < next_set s" for c a
    using assms by (simp add: wf_subscribers_def)
  have inj: "inj_on (subscribers s) (dom (subscribers s))"
    using assms by (simp add: wf_subscribers_def)
  have fresh: "subscribers s c \<noteq> Some (next_set s)" for c
    using lt[of c "next_set s"] by auto
  have inj': "inj_on ((subscribers s)(cmd \<mapsto> next_set s)) (dom ((subscribers s)(cmd \<mapsto> next_set s)))"
    using inj fresh by (auto simp: inj_on_def dom_def)
  show ?thesis
    using assms None inj' lt
    by (auto simp: subscribe_def Let_def wf_subscribers_def distinct_set_add less_Suc_eq)
next
  case (Some a)
  then show ?thesis using assms
    by (auto simp: subscribe_def wf_subscribers_def distinct_set_add)
qed

lemma wf_subscribers_unsubscribe:
  assumes "wf_subscribers s"
  shows "wf_subscribers (unsubscribe u s)"
proof -
  have inj: "inj_on (subscribers s) (dom (subscribers s))"
    using assms by (simp add: wf_subscribers_def)
  have inj': "inj_on ((subscribers s)(c := None)) (dom ((subscribers s)(c := None)))" for c
    using inj by (auto simp: inj_on_def dom_def)
  show ?thesis
    using assms inj'
    by (auto simp: unsubscribe_def Let_def wf_subscribers_def distinct_set_delete)
qed

lemma invariant_wf_subscribers: "invariant wf_subscribers"
proof (intro invariantI stableI)
  show "\<And>s cmd pl now rnd. wf_subscribers s \<Longrightarrow> wf_subscribers (snd (request cmd pl now rnd s))"
    by (simp add: wf_subscribers_def)
  show "\<And>s m rid. wf_subscribers s \<Longrightarrow> wf_subscribers (handle_response m rid s)"
    by (simp add: wf_subscribers_def)
qed (simp_all add: wf_subscribers_subscribe wf_subscribers_unsubscribe, simp_all add: wf_subscribers_def)

lemmas wf_subscribers_step = invariant_step [OF invariant_wf_subscribers]


lemmas wf_subscribers_handleMessage = invariant_handleMessage [OF invariant_wf_subscribers]


lemma subscribe_cases:
  assumes "subscribe cmd cb s = (u, s1)"
  obtains (new) "subscribers s cmd = None"
      "u = \<lparr>u_command = cmd, u_commandSubscribers = next_set s, u_callback = cb\<rparr>"
      "s1 = s\<lparr>subscribers := (subscribers s)(cmd \<mapsto> next_set s),
               sets := (sets s)(next_set s := [Some cb]),
               next_set := Suc (next_set s)\<rparr>"
  | (old) a where "subscribers s cmd = Some a"
      "u = \<lparr>u_command = cmd, u_commandSubscribers = a, u_callback = cb\<rparr>"
      "s1 = s\<lparr>sets := (sets s)(a := set_add cb (sets s a))\<rparr>"
  using assms by (cases "subscribers s cmd") (auto simp: subscribe_def Let_def set_add_def)

lemma removeAll_added: "removeAll cb (added cb xs) = removeAll cb xs"
  by (simp add: added_def)

lemma subscribe_registered:
  assumes "subscribe cmd cb s = (u, s1)"
  shows "registered s1 cmd = added cb (registered s cmd)"
    and "subscribers s1 cmd = Some (u_commandSubscribers u)"
    and "u_command u = cmd" and "u_callback u = cb"
  using assms by (cases rule: subscribe_cases; simp add: registered_def set_values_add added_def)+

lemma subscribe_registered_other:
  assumes "wf_subscribers s" and "subscribe cmd cb s = (u, s1)" and "c \<noteq> cmd"
  shows "registered s1 c = registered s c"
proof -
  have lt: "subscribers s c' = Some a \<Longrightarrow> a < next_set s" for c' a
    using assms(1) by (simp add: wf_subscribers_def)
  have inj: "inj_on (subscribers s) (dom (subscribers s))"
    using assms(1) by (simp add: wf_subscribers_def)
  from assms(2) show ?thesis
  proof (cases rule: subscribe_cases)
    case new
    then show ?thesis using assms(3) lt[of c] 
      by (auto simp: registered_def split: option.splits)
  next
    case (old a)
    have "subscribers s c \<noteq> Some a"
      using inj old(1) assms(3) by (auto simp: inj_on_def dom_def)
    then show ?thesis using old assms(3)
      by (auto simp: registered_def split: option.splits)
  qed
qed


lemma orphaned_subscribe:
  assumes "orphaned a t" shows "orphaned a (snd (subscribe cmd cb t))"
proof (cases "subscribe cmd cb t")
  case (Pair u t1)
  then have "orphaned a t1" using assms
    by (cases rule: subscribe_cases) (auto simp: orphaned_def)
  then show ?thesis using Pair by simp
qed

lemma orphaned_unsubscribe:
  assumes "orphaned a t" shows "orphaned a (unsubscribe u t)"
  using assms by (auto simp: orphaned_def unsubscribe_def Let_def set_size_delete_0)

lemma invariant_orphaned: "invariant (orphaned a)"
proof (intro invariantI stableI)
  show "\<And>s cmd pl now rnd. orphaned a s \<Longrightarrow> orphaned a (snd (request cmd pl now rnd s))"
    by (simp add: orphaned_def)
  show "\<And>s m rid. orphaned a s \<Longrightarrow> orphaned a (handle_response m rid s)"
    by (simp add: orphaned_def)
qed (simp_all add: orphaned_subscribe orphaned_unsubscribe, simp_all add: orphaned_def)

lemmas orphaned_run = invariant_run [OF invariant_orphaned]

lemma unsubscribe_orphaned:
  assumes "orphaned (u_commandSubscribers u) t"
  shows "subscribers (unsubscribe u t) (u_command u) = None"
    and "subscribers t (u_command u) = Some a \<Longrightarrow>
           a \<noteq> u_commandSubscribers u \<and> sets (unsubscribe u t) a = sets t a"
    and "registered (unsubscribe u t) (u_command u) = []"
  using assms by (auto simp: orphaned_def unsubscribe_def Let_def set_size_delete_0 registered_def)

lemma owned_subscribe:
  assumes "owned a cmd t" shows "owned a cmd (snd (subscribe c cb t))"
proof (cases "subscribe c cb t")
  case (Pair u t1)
  then have "owned a cmd t1" using assms
    by (cases rule: subscribe_cases) (auto simp: owned_def)
  then show ?thesis using Pair by simp
qed

lemma owned_unsubscribe:
  assumes "owned a cmd t" shows "owned a cmd (unsubscribe u t)"
  using assms by (auto simp: owned_def unsubscribe_def Let_def split: if_splits)

lemma invariant_owned: "invariant (owned a cmd)"
proof (intro invariantI stableI)
  show "\<And>s c pl now rnd. owned a cmd s \<Longrightarrow> owned a cmd (snd (request c pl now rnd s))"
    by (simp add: owned_def)
  show "\<And>s m rid. owned a cmd s \<Longrightarrow> owned a cmd (handle_response m rid s)"
    by (simp add: owned_def)
qed (simp_all add: owned_subscribe owned_unsubscribe, simp_all add: owned_def)

lemmas owned_run = invariant_run [OF invariant_owned]

lemma subscribe_owned:
  assumes "wf_subscribers s" and "subscribe cmd cb s = (u, s1)"
  shows "owned (u_commandSubscribers u) cmd s1"
proof -
  have wf1: "wf_subscribers s1"
    using wf_subscribers_subscribe [OF assms(1), of cmd cb] assms(2) by simp
  note sr = subscribe_registered [OF assms(2)]
  have inj: "inj_on (subscribers s1) (dom (subscribers s1))"
    using wf1 by (simp add: wf_subscribers_def)
  have "c = cmd" if "subscribers s1 c = Some (u_commandSubscribers u)" for c
    using inj sr(2) that by (auto simp: inj_on_def dom_def)
  moreover have "u_commandSubscribers u < next_set s1"
    using wf1 sr(2) by (auto simp: wf_subscribers_def)
  ultimately show ?thesis by (auto simp: owned_def)
qed

lemmas demo_defs = demo_env_def demo_files_def demo_request_def make_requestId_def show_nat.simps

subsection \<open>Runs: which requests get settled\<close>


lemma posted_ids_simps [simp]:
  "posted_ids (snd (subscribe cmd cb s)) = posted_ids s"
  "posted_ids (unsubscribe u s) = posted_ids s"
  "posted_ids (handle_response m rid s) = posted_ids s"
  "posted_ids (s\<lparr>invoked := x\<rparr>) = posted_ids s"
  "posted_ids (s\<lparr>console := y\<rparr>) = posted_ids s"
  "posted_ids (s\<lparr>timers := z\<rparr>) = posted_ids s"
  "length (posted_ids s) = length (posted s)"
  by (simp_all add: posted_ids_def)


lemma settled_response:
  "settled (handle_response m rid s) =
     (case pendingRequests s rid of None \<Rightarrow> settled s | Some pr \<Rightarrow> settled s @ [(pr, outcome_of m)])"
  by (cases "pendingRequests s rid") (auto simp: handle_response_None handle_response_eq)
















lemma request_ids_Cons: "request_ids (e # evs) = request_ids [e] @ request_ids evs"
  by (cases e) simp_all

lemma request_ids_append: "request_ids (xs @ ys) = request_ids xs @ request_ids ys"
proof (induction xs)
  case Nil
  then show ?case by simp
next
  case (Cons e xs)
  then show ?case using request_ids_Cons[of e "xs @ ys"] request_ids_Cons[of e xs] by simp
qed

subsection \<open>A request without a host and its timer\<close>

lemma mockError_nonempty: "mockError cmd \<noteq> []"
  by (simp add: mockError_def)

lemma outcome_of_mock [simp]: "outcome_of (mock_response rid cmd) = Rejected (mockError cmd)"
  by (simp add: outcome_of_def mock_response_def mockError_nonempty)

lemma requestId_mock [simp]: "requestId (mock_response rid cmd) = Some rid"
  by (simp add: mock_response_def)

lemma request_offline:
  assumes "\<not> vscodeApi s"
  shows "timers (snd (request cmd pl now rnd s)) =
           timers s @ [(100, mock_response (make_requestId cmd now rnd) cmd)]"
    and "posted (snd (request cmd pl now rnd s)) = posted s"
  using assms by (simp_all add: request_eq mock_response_def)

lemma offline_new: "offline (new_VscodeApi False)"
  by (simp add: offline_def new_VscodeApi_def)

lemma offline_request:
  assumes "offline t" shows "offline (snd (request cmd pl now rnd t))"
proof -
  have api: "\<not> vscodeApi t" using assms by (simp add: offline_def)
  show ?thesis
    using assms make_requestId_nonempty[of cmd now rnd]
    by (auto simp: offline_def request_offline[OF api] carries_id_def)
qed

text \<open>
  Without the API no subscriber is ever called: there is no window listener, and a
  timer hands \<^verbatim>\<open>handleMessage\<close> a response. So every event returns.
\<close>

lemma step_offline:
  assumes "offline t"
  shows "step B t (Message m) = Some t"
    and "timers t = [] \<Longrightarrow> step B t Timeout = Some t"
    and "timers t = x # ts \<Longrightarrow>
           \<exists>r. requestId (snd x) = Some r \<and> r \<noteq> []
             \<and> step B t Timeout = Some (handle_response (snd x) r (t\<lparr>timers := ts\<rparr>))"
proof -
  show "step B t (Message m) = Some t" using assms by (simp add: offline_def)
  show "timers t = [] \<Longrightarrow> step B t Timeout = Some t" by simp
  assume tm: "timers t = x # ts"
  then have "carries_id (snd x)" using assms by (simp add: offline_def)
  then obtain r where "requestId (snd x) = Some r" "r \<noteq> []"
    by (auto simp: carries_id_def split: option.splits)
  then show "\<exists>r. requestId (snd x) = Some r \<and> r \<noteq> []
             \<and> step B t Timeout = Some (handle_response (snd x) r (t\<lparr>timers := ts\<rparr>))"
    using tm by (simp add: handleMessage_def)
qed

lemma offline_step:
  assumes "offline t"
  shows "\<exists>t'. step B t e = Some t' \<and> offline t'
            \<and> next_promise t' = next_promise t + length (request_ids [e])"
proof (cases e)
  case (Request c pl now rnd)
  then show ?thesis using assms by (simp add: offline_request)
next
  case (Message m)
  then show ?thesis using assms step_offline(1)[OF assms] by simp
next
  case Timeout
  show ?thesis
  proof (cases "timers t")
    case Nil
    then show ?thesis using Timeout assms by simp
  next
    case (Cons x ts)
    from step_offline(3)[OF assms Cons, of B] obtain r where
      "step B t Timeout = Some (handle_response (snd x) r (t\<lparr>timers := ts\<rparr>))" by blast
    moreover have "offline (handle_response (snd x) r (t\<lparr>timers := ts\<rparr>))"
      using assms Cons by (simp add: offline_def)
    ultimately show ?thesis using Timeout by simp
  qed
next
  case (Subscribe c cb)
  then show ?thesis using assms by (simp add: offline_def)
next
  case (Unsubscribe u)
  then show ?thesis using assms by (simp add: offline_def)
qed

lemma offline_run:
  assumes "offline s"
  shows "\<exists>t. run B evs s = Some t \<and> offline t
           \<and> next_promise t = next_promise s + length (request_ids evs)"
  using assms
proof (induction evs arbitrary: s)
  case Nil
  then show ?case by simp
next
  case (Cons e evs)
  from offline_step[OF Cons.prems, of B e] obtain s1 where
    s1: "step B s e = Some s1" "offline s1"
        "next_promise s1 = next_promise s + length (request_ids [e])" by blast
  from Cons.IH[OF s1(2)] obtain t where
    "run B evs s1 = Some t" "offline t" "next_promise t = next_promise s1 + length (request_ids evs)"
    by blast
  then show ?case using s1 request_ids_Cons[of e evs] by simp
qed

text \<open>Every state that the bridge reaches without the API is of this kind.\<close>

lemma reached_offline:
  assumes "run B evs (new_VscodeApi False) = Some s"
  shows "\<not> vscodeApi s" and "wf_pending s" and "\<forall>x \<in> set (timers s). carries_id (snd x)"
proof -
  from offline_run[OF offline_new, of B evs] have "offline s" using assms by auto
  then show "\<not> vscodeApi s" and "\<forall>x \<in> set (timers s). carries_id (snd x)"
    by (simp_all add: offline_def)
  show "wf_pending s" using assms wf_pending_new by (rule wf_pending_run)
qed









subsection \<open>The delivery of a notification\<close>

lemma do_call_frame [simp]:
  "invoked (do_call s c) = invoked s"
  "filter is_error (console (do_call s c)) = filter is_error (console s)"
  by (cases c; simp add: request_eq)+

lemma calls_frame [simp]:
  "invoked (foldl do_call s cs) = invoked s"
  "filter is_error (console (foldl do_call s cs)) = filter is_error (console s)"
  by (induction cs arbitrary: s; simp)+








text \<open>A command without an entry in the map: the notification is dropped.\<close>

lemma notification_unsubscribed:
  "subscribers s (command m) = None \<Longrightarrow> handle_notification B m s = Some s"
  by (simp add: handle_notification_def)








subsection \<open>A delivery that does not return\<close>

lemma chained_call:
  assumes "chained i s"
  shows "sets s 0 ! i = Some (7 + i)" and "i < length (sets s 0)"
    and "chained (Suc i) (call_subscriber chain ''refreshFileTree'' p (7 + i) s)"
proof -
  from assms obtain n where sub: "subscribers s ''refreshFileTree'' = Some 0"
    and n: "i < n" and st: "sets s 0 = map Some [7..<7 + n]"
    by (auto simp: chained_def)
  show "sets s 0 ! i = Some (7 + i)" using n st by simp
  show "i < length (sets s 0)" using n st by simp
  let ?s1 = "call_subscriber chain ''refreshFileTree'' p (7 + i) s"
  have s1: "?s1 = (s\<lparr>invoked := invoked s @ [(7 + i, p)]\<rparr>)
                    \<lparr>sets := (sets s)(0 := set_add (8 + i) (sets s 0))\<rparr>"
    using sub by (simp add: call_subscriber_def chain_def subscribe_def)
  show "chained (Suc i) ?s1"
  proof (cases "Suc i < n")
    case True
    then have "Some (8 + i) \<in> set (sets s 0)" using st by auto
    then have "sets ?s1 0 = map Some [7..<7 + n]" using st by (simp add: s1 set_add_def)
    then show ?thesis using True sub by (auto simp: chained_def s1)
  next
    case False
    then have e: "n = Suc i" using n by simp
    then have "Some (8 + i) \<notin> set (sets s 0)" using st by auto
    then have "sets ?s1 0 = map Some [7..<7 + n] @ [Some (8 + i)]" using st by (simp add: s1 set_add_def)
    also have "\<dots> = map Some ([7..<7 + n] @ [7 + n])" using e by simp
    also have "[7..<7 + n] @ [7 + n] = [7..<Suc (7 + n)]" by (rule upt_Suc_append[symmetric]) simp
    also have "Suc (7 + n) = 7 + Suc n" by simp
    finally show ?thesis using e sub unfolding chained_def by (auto simp: s1)
  qed
qed

lemma forEach_chain:
  assumes "forEach B cmd p a i s = Some s'"
  shows "\<not> (B = chain \<and> cmd = ''refreshFileTree'' \<and> a = 0 \<and> chained i s)"
proof (rule forEach.raw_induct
         [where P = "\<lambda>B cmd p a i s s'. \<not> (B = chain \<and> cmd = ''refreshFileTree'' \<and> a = 0 \<and> chained i s)",
          OF _ assms])
  fix forEach B cmd p a i s s'
  assume IH: "\<And>B cmd p a i s s'. forEach B cmd p a i s = Some s' \<Longrightarrow>
                \<not> (B = chain \<and> cmd = ''refreshFileTree'' \<and> a = 0 \<and> chained i s)"
     and body: "(if i < length (sets s a)
         then case sets s a ! i of
                None \<Rightarrow> forEach B cmd p a (Suc i) s
              | Some c \<Rightarrow> forEach B cmd p a (Suc i) (call_subscriber B cmd p c s)
         else Some s) = Some s'"
  show "\<not> (B = chain \<and> cmd = ''refreshFileTree'' \<and> a = 0 \<and> chained i s)"
  proof
    assume h: "B = chain \<and> cmd = ''refreshFileTree'' \<and> a = 0 \<and> chained i s"
    then have c: "chained i s" by simp
    note cc = chained_call(1,2)[OF c]
    have "forEach chain ''refreshFileTree'' p 0 (Suc i)
            (call_subscriber chain ''refreshFileTree'' p (7 + i) s) = Some s'"
      using body h cc by simp
    from IH[OF this] show False using chained_call(3)[OF c, of p] by simp
  qed
qed

lemma delivery_may_not_return:
  "handleMessage chain refreshFileTree (snd (subscribe ''refreshFileTree'' 7 (new_VscodeApi True))) = None"
proof (cases "handleMessage chain refreshFileTree (snd (subscribe ''refreshFileTree'' 7 (new_VscodeApi True)))")
  case None
  then show ?thesis .
next
  case (Some s')
  let ?s = "snd (subscribe ''refreshFileTree'' 7 (new_VscodeApi True))"
  have "forEach chain ''refreshFileTree'' JUndefined 0 0 ?s = Some s'"
    using Some
    by (simp add: handleMessage_def handle_notification_def refreshFileTree_def subscribe_def
          new_VscodeApi_def Let_def)
  moreover have "chained 0 ?s"
    unfolding chained_def
    by (auto simp: subscribe_def new_VscodeApi_def Let_def set_add_def intro!: exI[of _ 1])
  ultimately show ?thesis using forEach_chain by blast
qed

section \<open>The claims\<close>






text \<open>
  \<^bold>\<open>C3\<close>, as the code has it. An inbound envelope that carries a request id which is not
  the empty string and which has no entry in the pending table is dropped:
  \<open>handleMessage\<close> returns, and it leaves the bridge as it was. No continuation is
  settled, no subscriber is called, nothing is logged, and neither the pending table
  nor the subscriber map changes.
\<close>

theorem unmatched_response_dropped:
  assumes "requestId m = Some rid" and "rid \<noteq> []" and "pendingRequests s rid = None"
  shows "handleMessage B m s = Some s"
  using assms by (simp add: handleMessage_def handle_response_None)

text \<open>
  At a concrete input: one request is pending, and a response for another id arrives.
\<close>

theorem unmatched_response_dropped_witness:
  "requestId \<lparr>command = ''response'', payload = JNull, requestId = Some ''deleteFile_3_0.25'', error = None\<rparr>
     = Some ''deleteFile_3_0.25''
   \<and> ''deleteFile_3_0.25'' \<noteq> []
   \<and> pendingRequests (snd (request ''getInitialData'' \<lparr>path = None, newContent = None\<rparr> 17 ''0.5'' (new_VscodeApi True)))
        ''deleteFile_3_0.25'' = None
   \<and> handleMessage (\<lambda>cb p t. \<lparr>calls = [], throws = None\<rparr>)
        \<lparr>command = ''response'', payload = JNull, requestId = Some ''deleteFile_3_0.25'', error = None\<rparr>
        (snd (request ''getInitialData'' \<lparr>path = None, newContent = None\<rparr> 17 ''0.5'' (new_VscodeApi True)))
     = Some (snd (request ''getInitialData'' \<lparr>path = None, newContent = None\<rparr> 17 ''0.5'' (new_VscodeApi True)))"
proof -
  have n: "''deleteFile_3_0.25'' \<noteq> []" by simp
  have h: "pendingRequests (snd (request ''getInitialData'' \<lparr>path = None, newContent = None\<rparr> 17 ''0.5'' (new_VscodeApi True)))
        ''deleteFile_3_0.25'' = None"
    by (simp add: new_VscodeApi_def make_requestId_def show_nat.simps)
  show ?thesis
    using h unmatched_response_dropped [of
        "\<lparr>command = ''response'', payload = JNull, requestId = Some ''deleteFile_3_0.25'', error = None\<rparr>"
        "''deleteFile_3_0.25''" _ "\<lambda>cb p t. \<lparr>calls = [], throws = None\<rparr>", OF _ n h]
    by simp
qed

text \<open>
  The claim as it was stated fails for the request id that is the empty string:
  \<^verbatim>\<open>if (requestId)\<close> is false for it, so the envelope, which has no entry in the pending
  table, is not dropped but delivered as a notification to the subscribers of its
  command. Here callback 7 is subscribed to \<^verbatim>\<open>refreshFileTree\<close> and fetches the initial
  data when called, as the subscribers in \<^verbatim>\<open>App.tsx\<close> do: the callback is called, a
  request is posted, and the pending table has one entry more.
\<close>

theorem empty_requestId_delivered:
  "pendingRequests (snd (subscribe ''refreshFileTree'' 7 (new_VscodeApi True))) [] = None
   \<and> map_option invoked
        (handleMessage
           (\<lambda>cb p t. \<lparr>calls = [CallRequest ''getInitialData'' \<lparr>path = None, newContent = None\<rparr> 17 ''0.5''],
                       throws = None\<rparr>)
           \<lparr>command = ''refreshFileTree'', payload = JNull, requestId = Some [], error = None\<rparr>
           (snd (subscribe ''refreshFileTree'' 7 (new_VscodeApi True))))
       = Some [(7, JNull)]
   \<and> map_option (\<lambda>t. pendingRequests t ''getInitialData_17_0.5'')
        (handleMessage
           (\<lambda>cb p t. \<lparr>calls = [CallRequest ''getInitialData'' \<lparr>path = None, newContent = None\<rparr> 17 ''0.5''],
                       throws = None\<rparr>)
           \<lparr>command = ''refreshFileTree'', payload = JNull, requestId = Some [], error = None\<rparr>
           (snd (subscribe ''refreshFileTree'' 7 (new_VscodeApi True))))
       = Some (Some 0)
   \<and> pendingRequests (snd (subscribe ''refreshFileTree'' 7 (new_VscodeApi True))) ''getInitialData_17_0.5''
       = None"
  by (simp add: handleMessage_def handle_notification_def forEach.simps call_subscriber_def
        subscribe_def set_add_def request_eq new_VscodeApi_def make_requestId_def Let_def
        show_nat.simps)

text \<open>
  \<^bold>\<open>C4\<close>, as the code has it. In a state the bridge can reach, an inbound envelope whose
  request id has an entry in the pending table settles that entry's continuation and
  deletes the entry: \<open>handleMessage\<close> returns, having rejected with an error made from
  the envelope's \<^verbatim>\<open>error\<close> field when that field is present and is not the empty
  string, and having resolved with the envelope's payload when the field is absent or
  empty.
\<close>

theorem matched_response_settles:
  assumes "wf_pending s" and "requestId m = Some rid" and "pendingRequests s rid = Some pr"
  shows "\<exists>t. handleMessage B m s = Some t
       \<and> (\<forall>e. error m = Some e \<and> e \<noteq> [] \<longrightarrow> settled t = settled s @ [(pr, Rejected e)])
       \<and> (error m = None \<or> error m = Some [] \<longrightarrow>
            settled t = settled s @ [(pr, Resolved (payload m))])
       \<and> pendingRequests t = (pendingRequests s)(rid := None)"
proof -
  have "rid \<noteq> []" using assms by (auto simp: wf_pending_def)
  then have "handleMessage B m s = Some (handle_response m rid s)"
    using assms by (simp add: handleMessage_def)
  then show ?thesis
    using assms(3) by (auto simp: handle_response_eq outcome_of_def)
qed

text \<open>At a concrete input: the response to a pending \<^verbatim>\<open>getFileContent\<close> carries an error.\<close>

theorem matched_response_settles_witness:
  "wf_pending (snd (request ''getFileContent'' \<lparr>path = Some ''a.ts'', newContent = None\<rparr> 17 ''0.5'' (new_VscodeApi True)))
   \<and> pendingRequests (snd (request ''getFileContent'' \<lparr>path = Some ''a.ts'', newContent = None\<rparr> 17 ''0.5'' (new_VscodeApi True)))
        ''getFileContent_17_0.5'' = Some 0
   \<and> map_option settled (handleMessage (\<lambda>cb p t. \<lparr>calls = [], throws = None\<rparr>)
        \<lparr>command = ''response'', payload = JNull, requestId = Some ''getFileContent_17_0.5'',
          error = Some ''Failed to read file a.ts: FileNotFound''\<rparr>
        (snd (request ''getFileContent'' \<lparr>path = Some ''a.ts'', newContent = None\<rparr> 17 ''0.5'' (new_VscodeApi True))))
       = Some [(0, Rejected ''Failed to read file a.ts: FileNotFound'')]
   \<and> map_option (\<lambda>t. pendingRequests t ''getFileContent_17_0.5'')
        (handleMessage (\<lambda>cb p t. \<lparr>calls = [], throws = None\<rparr>)
        \<lparr>command = ''response'', payload = JNull, requestId = Some ''getFileContent_17_0.5'',
          error = Some ''Failed to read file a.ts: FileNotFound''\<rparr>
        (snd (request ''getFileContent'' \<lparr>path = Some ''a.ts'', newContent = None\<rparr> 17 ''0.5'' (new_VscodeApi True))))
       = Some None"
proof -
  let ?s = "snd (request ''getFileContent'' \<lparr>path = Some ''a.ts'', newContent = None\<rparr> 17 ''0.5'' (new_VscodeApi True))"
  let ?m = "\<lparr>command = ''response'', payload = JNull, requestId = Some ''getFileContent_17_0.5'',
          error = Some ''Failed to read file a.ts: FileNotFound''\<rparr>"
  have wf: "wf_pending ?s" by (rule wf_pending_request [OF wf_pending_new])
  have p: "pendingRequests ?s ''getFileContent_17_0.5'' = Some 0"
    by (simp add: new_VscodeApi_def make_requestId_def show_nat.simps)
  have s: "settled ?s = []"
    by (simp add: new_VscodeApi_def)
  from matched_response_settles [of ?s ?m "''getFileContent_17_0.5''" 0 "\<lambda>cb p t. \<lparr>calls = [], throws = None\<rparr>", OF wf _ p]
  obtain t where t: "handleMessage (\<lambda>cb p t. \<lparr>calls = [], throws = None\<rparr>) ?m ?s = Some t"
      "settled t = settled ?s @ [(0, Rejected ''Failed to read file a.ts: FileNotFound'')]"
      "pendingRequests t = (pendingRequests ?s)(''getFileContent_17_0.5'' := None)"
    by auto
  show ?thesis
    using wf p t s by simp
qed

text \<open>
  The claim as it was stated fails where the \<^verbatim>\<open>error\<close> field is present and empty:
  \<^verbatim>\<open>if (error)\<close> is false for the empty string, and the continuation is resolved, not
  rejected.
\<close>

theorem empty_error_resolves:
  "map_option settled (handleMessage (\<lambda>cb p t. \<lparr>calls = [], throws = None\<rparr>)
        \<lparr>command = ''response'', payload = JStr ''x'', requestId = Some ''getFileContent_17_0.5'',
          error = Some []\<rparr>
        (snd (request ''getFileContent'' \<lparr>path = Some ''a.ts'', newContent = None\<rparr> 17 ''0.5'' (new_VscodeApi True))))
   = Some [(0, Resolved (JStr ''x''))]"
  by (simp add: handleMessage_def handle_response_def settle_def request_def new_VscodeApi_def
        make_requestId_def Let_def show_nat.simps)







text \<open>
  \<^bold>\<open>C7\<close>, as the code has it. For a request whose command is not in the catalog, the
  dispatcher posts nothing when a workspace is open. When no workspace is open, the
  guard before the \<^verbatim>\<open>switch\<close> answers it, as it answers every command but
  \<^verbatim>\<open>getInitialData\<close>: with the error response \<^verbatim>\<open>No workspace is open.\<close>
\<close>

theorem unknown_command:
  assumes "req_command msg \<notin> set catalog"
  shows "(\<forall>w. workspaceFolder E = Some w \<longrightarrow> onDidReceiveMessage E msg fs = ([], fs))
       \<and> (workspaceFolder E = None \<longrightarrow>
            onDidReceiveMessage E msg fs =
              ([respond (req_requestId msg) JNull (Some ''No workspace is open.'')], fs))"
  using assms by (auto simp: onDidReceiveMessage_def catalog_def Let_def)

text \<open>At a concrete input: the command \<^verbatim>\<open>ping\<close>, with a workspace open.\<close>

theorem unknown_command_witness:
  "''ping'' \<notin> set catalog
   \<and> onDidReceiveMessage demo_env (demo_request ''ping'') demo_files = ([], demo_files)"
proof -
  have h: "req_command (demo_request ''ping'') \<notin> set catalog"
    by (simp add: catalog_def demo_request_def)
  show ?thesis
    using h unknown_command [OF h, of demo_env demo_files]
    by (simp add: demo_env_def demo_request_def)
qed

text \<open>
  The claim as it was stated fails where no workspace is open: the unknown command
  \<^verbatim>\<open>ping\<close> gets a response.
\<close>

theorem unknown_command_answered_without_workspace:
  "fst (onDidReceiveMessage (demo_env\<lparr>workspaceFolder := None\<rparr>) (demo_request ''ping'') Map.empty)
   = [\<lparr>command = ''response'', payload = JNull, requestId = Some ''ping_17_0.5'',
       error = Some ''No workspace is open.''\<rparr>]"
  by (simp add: onDidReceiveMessage_def respond_def Let_def demo_defs)

text \<open>
  \<^bold>\<open>C8\<close>, as the code has it. For a \<^verbatim>\<open>deleteFile\<close> request with a path, in an open
  workspace: when the confirmation dialog is answered with anything but \<^verbatim>\<open>Delete\<close>
  (dismissed included), the dispatcher posts one error response
  (\<^verbatim>\<open>Deletion cancelled by user.\<close>), leaves the files as they are and posts no tree-changed
  notification. When the answer is \<^verbatim>\<open>Delete\<close> and the deletion succeeds, the file is
  gone, and exactly one tree-changed notification is posted, before the response
  \<^verbatim>\<open>{ success: true }\<close>. When the answer is \<^verbatim>\<open>Delete\<close> and the deletion raises, the
  dispatcher posts one error response (\<^verbatim>\<open>Failed to delete file ...\<close>) and no
  notification, and the files are as they were.
\<close>

theorem deleteFile_confirmation:
  assumes "req_command msg = ''deleteFile''" and "workspaceFolder E = Some w"
      and "path (req_payload msg) = Some p"
  shows "(confirmation E \<noteq> Some ''Delete'' \<longrightarrow>
            onDidReceiveMessage E msg fs =
              ([respond (req_requestId msg) JNull (Some ''Deletion cancelled by user.'')], fs)
          \<and> treeChanged (fst (onDidReceiveMessage E msg fs)) = [])
       \<and> (confirmation E = Some ''Delete'' \<longrightarrow>
            (\<forall>fs'. fs_delete E fs (fsPath w, p) = Inr fs' \<longrightarrow>
               onDidReceiveMessage E msg fs =
                 ([refreshFileTree, respond (req_requestId msg) (JObj [(''success'', JBool True)]) None], fs')
             \<and> fs' (fsPath w, p) = None
             \<and> treeChanged (fst (onDidReceiveMessage E msg fs)) = [refreshFileTree])
          \<and> (\<forall>e. fs_delete E fs (fsPath w, p) = Inl e \<longrightarrow>
               onDidReceiveMessage E msg fs =
                 ([respond (req_requestId msg) JNull (Some (''Failed to delete file '' @ p @ '': '' @ e))], fs)
             \<and> treeChanged (fst (onDidReceiveMessage E msg fs)) = []))"
  using assms
  by (auto simp: onDidReceiveMessage_def deleteFile_def joinPath_def Let_def template_def
        treeChanged_def respond_def refreshFileTree_def fs_delete_def split: option.splits)

text \<open>At a concrete input: the user confirms, and the file is deleted.\<close>

theorem deleteFile_confirmation_witness:
  "req_command (demo_request ''deleteFile'') = ''deleteFile''
   \<and> workspaceFolder (demo_env\<lparr>confirmation := Some ''Delete''\<rparr>) = Some \<lparr>fsPath = ''/ws'', name = ''ws''\<rparr>
   \<and> path (req_payload (demo_request ''deleteFile'')) = Some ''a.ts''
   \<and> fst (onDidReceiveMessage (demo_env\<lparr>confirmation := Some ''Delete''\<rparr>) (demo_request ''deleteFile'') demo_files)
       = [refreshFileTree, respond ''deleteFile_17_0.5'' (JObj [(''success'', JBool True)]) None]
   \<and> snd (onDidReceiveMessage (demo_env\<lparr>confirmation := Some ''Delete''\<rparr>) (demo_request ''deleteFile'') demo_files)
        (''/ws'', ''a.ts'') = None"
  using deleteFile_confirmation [of "demo_request ''deleteFile''" "demo_env\<lparr>confirmation := Some ''Delete''\<rparr>"
      "\<lparr>fsPath = ''/ws'', name = ''ws''\<rparr>" "''a.ts''" demo_files]
  by (simp add: demo_defs fs_delete_def)

text \<open>
  The claim as it was stated fails where the user confirms and the deletion raises: the
  file is still there and no notification is posted.
\<close>

theorem deleteFile_failure_not_notified:
  "fst (onDidReceiveMessage (demo_env\<lparr>confirmation := Some ''Delete'', fsError := Some ''EACCES: permission denied''\<rparr>)
          (demo_request ''deleteFile'') demo_files)
     = [\<lparr>command = ''response'', payload = JNull, requestId = Some ''deleteFile_17_0.5'',
         error = Some ''Failed to delete file a.ts: EACCES: permission denied''\<rparr>]
   \<and> snd (onDidReceiveMessage (demo_env\<lparr>confirmation := Some ''Delete'', fsError := Some ''EACCES: permission denied''\<rparr>)
          (demo_request ''deleteFile'') demo_files) (''/ws'', ''a.ts'') = Some ''let a = 1''"
  by (simp add: onDidReceiveMessage_def deleteFile_def joinPath_def fs_delete_def respond_def
        template_def Let_def demo_defs)

text \<open>
  \<^bold>\<open>C9\<close>, as the code has it. For a \<^verbatim>\<open>createFile\<close> request in an open workspace: when
  the prompt is dismissed or yields the empty path, the dispatcher posts one error
  response (\<^verbatim>\<open>File creation cancelled by user.\<close>), creates no file and posts no
  notification. When the prompt yields a path \<open>p\<close> that is not empty and the write
  succeeds, there is an empty file at \<open>p\<close>, and exactly one tree-changed notification
  is posted, before the response \<^verbatim>\<open>{ success: true, path: p }\<close>. When the write raises,
  the dispatcher posts one error response (\<^verbatim>\<open>Failed to create file: ...\<close>) and no
  notification, and the files are as they were.
\<close>

theorem createFile_prompt:
  assumes "req_command msg = ''createFile''" and "workspaceFolder E = Some w"
  shows "(inputBox E = None \<or> inputBox E = Some [] \<longrightarrow>
            onDidReceiveMessage E msg fs =
              ([respond (req_requestId msg) JNull (Some ''File creation cancelled by user.'')], fs)
          \<and> treeChanged (fst (onDidReceiveMessage E msg fs)) = [])
       \<and> (\<forall>p. inputBox E = Some p \<and> p \<noteq> [] \<longrightarrow>
            (fsError E = None \<longrightarrow>
               onDidReceiveMessage E msg fs =
                 ([refreshFileTree,
                   respond (req_requestId msg) (JObj [(''success'', JBool True), (''path'', JStr p)]) None],
                  fs((fsPath w, p) \<mapsto> []))
             \<and> treeChanged (fst (onDidReceiveMessage E msg fs)) = [refreshFileTree])
          \<and> (\<forall>e. fsError E = Some e \<longrightarrow>
               onDidReceiveMessage E msg fs =
                 ([respond (req_requestId msg) JNull (Some (''Failed to create file: '' @ e))], fs)
             \<and> treeChanged (fst (onDidReceiveMessage E msg fs)) = []))"
  using assms
  by (auto simp: onDidReceiveMessage_def createFile_def joinPath_def Let_def
        treeChanged_def respond_def refreshFileTree_def fs_writeFile_def split: option.splits)

text \<open>At a concrete input: the prompt yields \<^verbatim>\<open>src/new.ts\<close>.\<close>

theorem createFile_prompt_witness:
  "req_command (demo_request ''createFile'') = ''createFile''
   \<and> workspaceFolder (demo_env\<lparr>inputBox := Some ''src/new.ts''\<rparr>) = Some \<lparr>fsPath = ''/ws'', name = ''ws''\<rparr>
   \<and> fst (onDidReceiveMessage (demo_env\<lparr>inputBox := Some ''src/new.ts''\<rparr>) (demo_request ''createFile'') demo_files)
       = [refreshFileTree,
          respond ''createFile_17_0.5'' (JObj [(''success'', JBool True), (''path'', JStr ''src/new.ts'')]) None]
   \<and> snd (onDidReceiveMessage (demo_env\<lparr>inputBox := Some ''src/new.ts''\<rparr>) (demo_request ''createFile'') demo_files)
        (''/ws'', ''src/new.ts'') = Some []"
  using createFile_prompt [of "demo_request ''createFile''" "demo_env\<lparr>inputBox := Some ''src/new.ts''\<rparr>"
      "\<lparr>fsPath = ''/ws'', name = ''ws''\<rparr>" demo_files]
  by (simp add: demo_defs)

text \<open>
  The claim as it was stated fails where the prompt yields a path and the write raises:
  no file is created and no notification is posted.
\<close>

theorem createFile_failure_not_notified:
  "fst (onDidReceiveMessage (demo_env\<lparr>inputBox := Some ''src/new.ts'', fsError := Some ''EACCES: permission denied''\<rparr>)
          (demo_request ''createFile'') demo_files)
     = [\<lparr>command = ''response'', payload = JNull, requestId = Some ''createFile_17_0.5'',
         error = Some ''Failed to create file: EACCES: permission denied''\<rparr>]
   \<and> snd (onDidReceiveMessage (demo_env\<lparr>inputBox := Some ''src/new.ts'', fsError := Some ''EACCES: permission denied''\<rparr>)
          (demo_request ''createFile'') demo_files) (''/ws'', ''src/new.ts'') = None"
  by (simp add: onDidReceiveMessage_def createFile_def joinPath_def fs_writeFile_def respond_def
        Let_def demo_defs)

text \<open>
  \<^bold>\<open>C10.\<close> The function \<open>u\<close> returned by \<open>subscribe cmd cb\<close> holds the set object that
  was registered for \<open>cmd\<close> when it was made. Let that set have become empty and be no
  longer registered for \<open>cmd\<close> (after the events \<open>evs1\<close>: a first call of \<open>u\<close> among
  them). Then, whatever happened since (\<open>evs2\<close>: new subscribers for \<open>cmd\<close> among it), a
  call of \<open>u\<close> deletes \<open>cmd\<close> from the map: the set then registered for \<open>cmd\<close> is another
  object, \<open>u\<close> leaves its content as it is, and a notification for \<open>cmd\<close> no longer
  reaches any of its callbacks: \<open>handleMessage\<close> returns with the state unchanged.
\<close>

theorem stale_unsubscribe_deletes_new_set:
  assumes "wf_subscribers s" and "subscribe cmd cb s = (u, s1)"
      and "run B evs1 s1 = Some t1"
      and "set_size (sets t1 (u_commandSubscribers u)) = 0"
      and "subscribers t1 cmd \<noteq> Some (u_commandSubscribers u)"
      and "run B evs2 t1 = Some t"
  shows "subscribers s1 cmd = Some (u_commandSubscribers u)
       \<and> subscribers (unsubscribe u t) cmd = None
       \<and> (\<forall>a. subscribers t cmd = Some a \<longrightarrow>
             a \<noteq> u_commandSubscribers u \<and> sets (unsubscribe u t) a = sets t a)
       \<and> (\<forall>m. requestId m = None \<and> command m = cmd \<longrightarrow>
             handleMessage B m (unsubscribe u t) = Some (unsubscribe u t))"
proof -
  let ?a = "u_commandSubscribers u"
  note sr = subscribe_registered [OF assms(2)]
  have "owned ?a cmd s1" using assms(1,2) by (rule subscribe_owned)
  with assms(3) have ow: "owned ?a cmd t1" by (rule owned_run)
  have o1: "orphaned ?a t1"
    using ow assms(4,5) by (auto simp: orphaned_def owned_def)
  with assms(6) have o: "orphaned ?a t" by (rule orphaned_run)
  note uo = unsubscribe_orphaned [OF o]
  have d: "handleMessage B m (unsubscribe u t) = Some (unsubscribe u t)"
    if "requestId m = None" "command m = cmd" for m
    using that uo(1) sr(3) by (simp add: handleMessage_def notification_unsubscribed)
  show ?thesis
    using sr(2) uo(1) uo(2) d sr(3) by auto
qed

text \<open>
  At a concrete input: callback 7 subscribes and unsubscribes, callback 8 subscribes, and
  the function of callback 7 is called again.
\<close>

theorem stale_unsubscribe_deletes_new_set_witness:
  "wf_subscribers (new_VscodeApi True)
   \<and> subscribe ''refreshFileTree'' 7 (new_VscodeApi True)
       = (\<lparr>u_command = ''refreshFileTree'', u_commandSubscribers = 0, u_callback = 7\<rparr>,
          snd (subscribe ''refreshFileTree'' 7 (new_VscodeApi True)))
   \<and> map_option (\<lambda>t. set_size (sets t 0))
        (run (\<lambda>cb p t. \<lparr>calls = [], throws = None\<rparr>)
          [Unsubscribe \<lparr>u_command = ''refreshFileTree'', u_commandSubscribers = 0, u_callback = 7\<rparr>]
          (snd (subscribe ''refreshFileTree'' 7 (new_VscodeApi True)))) = Some 0
   \<and> map_option (\<lambda>t. subscribers t ''refreshFileTree'')
        (run (\<lambda>cb p t. \<lparr>calls = [], throws = None\<rparr>)
          [Unsubscribe \<lparr>u_command = ''refreshFileTree'', u_commandSubscribers = 0, u_callback = 7\<rparr>]
          (snd (subscribe ''refreshFileTree'' 7 (new_VscodeApi True)))) = Some None
   \<and> map_option (\<lambda>t. registered t ''refreshFileTree'')
        (run (\<lambda>cb p t. \<lparr>calls = [], throws = None\<rparr>)
          [Unsubscribe \<lparr>u_command = ''refreshFileTree'', u_commandSubscribers = 0, u_callback = 7\<rparr>,
           Subscribe ''refreshFileTree'' 8]
          (snd (subscribe ''refreshFileTree'' 7 (new_VscodeApi True)))) = Some [8]
   \<and> map_option (\<lambda>t. subscribers
          (unsubscribe \<lparr>u_command = ''refreshFileTree'', u_commandSubscribers = 0, u_callback = 7\<rparr> t)
          ''refreshFileTree'')
        (run (\<lambda>cb p t. \<lparr>calls = [], throws = None\<rparr>)
          [Unsubscribe \<lparr>u_command = ''refreshFileTree'', u_commandSubscribers = 0, u_callback = 7\<rparr>,
           Subscribe ''refreshFileTree'' 8]
          (snd (subscribe ''refreshFileTree'' 7 (new_VscodeApi True)))) = Some None"
proof -
  let ?u = "\<lparr>u_command = ''refreshFileTree'', u_commandSubscribers = 0, u_callback = 7\<rparr>"
  let ?B = "\<lambda>cb p t. \<lparr>calls = [], throws = None\<rparr>"
  let ?s1 = "snd (subscribe ''refreshFileTree'' 7 (new_VscodeApi True))"
  let ?t1 = "unsubscribe ?u ?s1"
  let ?t = "snd (subscribe ''refreshFileTree'' 8 ?t1)"
  have wf: "wf_subscribers (new_VscodeApi True)" by (rule wf_subscribers_new)
  have s: "subscribe ''refreshFileTree'' 7 (new_VscodeApi True) = (?u, ?s1)"
    by (simp add: subscribe_def new_VscodeApi_def Let_def)
  have r1: "run ?B [Unsubscribe ?u] ?s1 = Some ?t1" by simp
  have r2: "run ?B [Subscribe ''refreshFileTree'' 8] ?t1 = Some ?t" by simp
  have r12: "run ?B [Unsubscribe ?u, Subscribe ''refreshFileTree'' 8] ?s1 = Some ?t" by simp
  have e: "set_size (sets ?t1 0) = 0"
    by (simp add: subscribe_def unsubscribe_def new_VscodeApi_def Let_def
          set_add_def set_delete_def set_size_def)
  have n: "subscribers ?t1 ''refreshFileTree'' = None"
    by (simp add: subscribe_def unsubscribe_def new_VscodeApi_def Let_def
          set_add_def set_delete_def set_size_def)
  have e': "set_size (sets ?t1 (u_commandSubscribers ?u)) = 0" using e by simp
  have n': "subscribers ?t1 ''refreshFileTree'' \<noteq> Some (u_commandSubscribers ?u)" using n by simp
  have r: "registered ?t ''refreshFileTree'' = [8]"
    by (simp add: registered_def subscribe_def unsubscribe_def new_VscodeApi_def Let_def
          set_add_def set_delete_def set_size_def)
  have "wf_subscribers (new_VscodeApi True)
      \<and> subscribe ''refreshFileTree'' 7 (new_VscodeApi True) = (?u, ?s1)
      \<and> Some (set_size (sets ?t1 0)) = Some 0
      \<and> Some (subscribers ?t1 ''refreshFileTree'') = Some None
      \<and> Some (registered ?t ''refreshFileTree'') = Some [8]
      \<and> Some (subscribers (unsubscribe ?u ?t) ''refreshFileTree'') = Some None"
    using wf s e n r
      stale_unsubscribe_deletes_new_set [OF wf s r1 e' n' r2]
    by simp
  then show ?thesis by (simp only: r1 r12 option.map)
qed

end
